theory Spec2Isabelle
  imports Complex_Main "HOL-Library.AList"
begin

section \<open>Errors\<close>

text \<open>
  Every exception of the TypeScript source is a value.  \<open>TypeError\<close> is what reading a
  property of \<open>undefined\<close> raises, \<open>ClientError\<close> a rejection of a call on the ImapFlow
  client, \<open>ParserError\<close> a rejection of \<open>mailparser.simpleParser\<close>.
\<close>

datatype error = TypeError | ClientError | ParserError

section \<open>Strings of the source (Mail.ts)\<close>

text \<open>
  A JavaScript string is modelled as a list of 8-bit code units.  \<open>is_ws\<close> is the set
  of characters \<open>String.prototype.trim\<close> removes, restricted to that range.
\<close>

definition is_ws :: "char \<Rightarrow> bool" where
  "is_ws c = (c \<in> {CHR 0x09, CHR 0x0A, CHR 0x0B, CHR 0x0C, CHR 0x0D, CHR 0x20, CHR 0xA0})"

definition trim :: "string \<Rightarrow> string" where
  "trim s = rev (dropWhile is_ws (rev (dropWhile is_ws s)))"

text \<open>\<open>split_at_first sep s\<close>: the text before and after the first occurrence of \<open>sep\<close>.\<close>

fun split_at_first :: "string \<Rightarrow> string \<Rightarrow> (string \<times> string) option" where
  "split_at_first sep [] = (if sep = [] then Some ([], []) else None)"
| "split_at_first sep (x # xs) =
     (if take (length sep) (x # xs) = sep then Some ([], drop (length sep) (x # xs))
      else (case split_at_first sep xs of
              None \<Rightarrow> None
            | Some (b, a) \<Rightarrow> Some (x # b, a)))"

lemma split_at_first_shorter:
  "split_at_first sep s = Some (b, a) \<Longrightarrow> sep \<noteq> [] \<Longrightarrow> length a < length s"
proof (induction s arbitrary: b)
  case Nil
  then show ?case by simp
next
  case (Cons x xs)
  show ?case
  proof (cases "take (length sep) (x # xs) = sep")
    case True
    with Cons.prems show ?thesis by auto
  next
    case False
    with Cons.prems obtain b' where "split_at_first sep xs = Some (b', a)"
      by (auto split: option.splits)
    with Cons.IH Cons.prems(2) show ?thesis by fastforce
  qed
qed

text \<open>
  \<open>String.prototype.split\<close> with a string separator: an empty separator cuts the
  string into its code units, any other separator cuts at each occurrence, left to right.
\<close>

function js_split :: "string \<Rightarrow> string \<Rightarrow> string list" where
  "js_split sep s =
     (if sep = [] then map (\<lambda>c. [c]) s
      else (case split_at_first sep s of
              None \<Rightarrow> [s]
            | Some (b, a) \<Rightarrow> b # js_split sep a))"
  by pat_completeness auto
termination
  by (relation "measure (\<lambda>(sep, s). length s)") (auto dest: split_at_first_shorter)

declare js_split.simps [simp del]

text \<open>\<open>line.slice(0, -2)\<close>: the line without its last two code units.\<close>

definition slice_0_minus2 :: "string \<Rightarrow> string" where
  "slice_0_minus2 l = take (length l - 2) l"

text \<open>
  The body of the \<open>try\<close> block of \<open>Mail.parseContent\<close>.  \<open>textLines.pop()\<close> drops the
  last line; \<open>textLines[textLines.length - 1]\<close> is \<open>undefined\<close> when no line is left,
  and \<open>.slice\<close> on it raises; so does \<open>.trim\<close> when the second split returns no piece.
  The parameter is always a string (the constructor passes \<open>parsedMail.text || ''\<close>), so
  the test \<open>content !== undefined\<close> is true.
\<close>

definition parseContent_try :: "string \<Rightarrow> error + string" where
  "parseContent_try content =
     (let textLines = butlast (js_split [CHR 0x0A] content) in
      if textLines = [] then Inl TypeError
      else
        let separator = slice_0_minus2 (last textLines) in
        (case js_split separator content of
           [] \<Rightarrow> Inl TypeError
         | separatedText # _ \<Rightarrow> Inr (trim separatedText)))"

text \<open>\<open>Mail.parseContent\<close>: the \<open>catch\<close> clause returns the empty string.\<close>

definition parseContent :: "string \<Rightarrow> string" where
  "parseContent content =
     (case parseContent_try content of Inl e \<Rightarrow> [] | Inr s \<Rightarrow> s)"

text \<open>The fields of mailparser's \<open>ParsedMail\<close> that the source reads.\<close>

record ParsedMail =
  subject :: "string option"
  sender :: "string option"
  text_body :: "string option"

text \<open>The fields of imapflow's \<open>FetchMessageObject\<close> that the source reads.\<close>

record FetchMessageObject =
  uid :: nat
  seq :: nat
  headers :: string
  bodyPart_text :: "string option"

record Mail =
  mail_uid :: nat
  mail_seq :: nat
  mail_subject :: string
  mail_from :: "string option"
  mail_content :: string
  mail_mailboxPath :: string
  mail_parsedMail :: ParsedMail

text \<open>\<open>s || ''\<close> on an optional string: \<open>undefined\<close> and the empty string are falsy.\<close>

definition or_empty :: "string option \<Rightarrow> string" where
  "or_empty s = (case s of None \<Rightarrow> [] | Some v \<Rightarrow> (if v = [] then [] else v))"

text \<open>The constructor of \<open>Mail\<close> (the reference to the Imap object is left out).\<close>

definition new_Mail :: "string \<Rightarrow> FetchMessageObject \<Rightarrow> ParsedMail \<Rightarrow> Mail" where
  "new_Mail mailboxPath msg parsedMail =
     \<lparr> mail_uid = uid msg,
       mail_seq = seq msg,
       mail_subject = or_empty (subject parsedMail),
       mail_from = sender parsedMail,
       mail_content = parseContent (or_empty (text_body parsedMail)),
       mail_mailboxPath = mailboxPath,
       mail_parsedMail = parsedMail \<rparr>"

section \<open>Configuration and logging (ImapConfig, Logger)\<close>

text \<open>
  The options of \<open>ImapConfig\<close> that the source reads.  Intervals are JavaScript numbers
  (milliseconds), modelled as reals.
\<close>

record ImapConfig =
  auth_user :: string
  logging :: "bool option"
  reconnectInterval :: "real option"
  mailboxesToWatch :: "string list option"
  mailboxesWatchInterval :: "real option"

definition DEFAULT_RECONNECT_INTERVAL :: real where
  "DEFAULT_RECONNECT_INTERVAL = 1000 * 60"

definition DEFAULT_MAILBOXES_INTERVAL :: real where
  "DEFAULT_MAILBOXES_INTERVAL = 1000 * 60"

text \<open>\<open>v || d\<close> on an optional number: \<open>undefined\<close> and \<open>0\<close> are falsy.\<close>

definition or_default :: "real option \<Rightarrow> real \<Rightarrow> real" where
  "or_default v d = (case v of None \<Rightarrow> d | Some x \<Rightarrow> (if x = 0 then d else x))"

datatype colour = White | Green | Red | Yellow

text \<open>The template strings the source logs, with their interpolated values.\<close>

datatype log_message =
    TryingToConnect string
  | Connected string
  | CouldNotConnect string
  | ErrorDetected real
  | LoadedMailboxes nat string
  | WatchingMailbox string real string
  | ErrorWhileWatching string string

section \<open>Observable actions\<close>

datatype callback = RunCallback | EmitLoadedMailsCallback | WatchMailboxCallback string

datatype event = NewMailEvent Mail | LoadedMailEvent Mail | DeletedMailEvent nat

text \<open>
  What an operation does to the outside, in the order it does it: calls on the ImapFlow
  client and on a mailbox lock, events passed to the emitter, timers, console output.
\<close>

datatype action =
    ConsoleLog log_message colour
  | NewImapFlow
  | ClientConnect
  | ClientOnError
  | ClientList
  | GetMailboxLock string
  | ClientFetch
  | LockRelease string
  | MessageDelete string
  | MessageFlagsAdd string
  | MessageFlagsRemove string
  | Emit event
  | SetTimeout callback real
  | SetInterval callback real

text \<open>\<open>Logger.log\<close>: prints only when logging is on (the constructor defaults to off).\<close>

definition log :: "ImapConfig \<Rightarrow> log_message \<Rightarrow> colour \<Rightarrow> action list" where
  "log cfg message col = (if logging cfg = Some True then [ConsoleLog message col] else [])"

section \<open>Identifier lists\<close>

text \<open>
  Modelled from the spec: the interface \<open>UidsList\<close> is not among the sources.  The
  spec describes the selector as a union: either an explicit list of identifiers or a
  list of messages.
\<close>

datatype UidsList = Uids "nat list" | Mails "Mail list"

text \<open>The identifiers of a list in input order, without those seen before.\<close>

fun dedup :: "nat list \<Rightarrow> nat list \<Rightarrow> nat list" where
  "dedup seen [] = []"
| "dedup seen (x # xs) = (if x \<in> set seen then dedup seen xs else x # dedup (x # seen) xs)"

text \<open>
  Modelled from the spec: the helper \<open>uidsAndMailsToUids\<close> of \<open>utils\<close> is not among the
  sources.  The spec has the selector normalised to the identifiers in input order with
  duplicates removed, \<open>[3, 1, 2, 1]\<close> giving \<open>[3, 1, 2]\<close>.
\<close>

definition uidsAndMailsToUids :: "UidsList \<Rightarrow> nat list" where
  "uidsAndMailsToUids l = (case l of Uids us \<Rightarrow> dedup [] us | Mails ms \<Rightarrow> dedup [] (map mail_uid ms))"

text \<open>Decimal digits of a number, and \<open>uids.join(',')\<close>.\<close>

definition digit_char :: "nat \<Rightarrow> char" where
  "digit_char d = ''0123456789'' ! d"

function string_of_nat :: "nat \<Rightarrow> string" where
  "string_of_nat n =
     (if n < 10 then [digit_char n]
      else string_of_nat (n div 10) @ [digit_char (n mod 10)])"
  by pat_completeness auto
termination
  by (relation "measure (\<lambda>n. n)") auto

declare string_of_nat.simps [simp del]

fun join_comma :: "string list \<Rightarrow> string" where
  "join_comma [] = []"
| "join_comma [s] = s"
| "join_comma (s # t # ss) = s @ '','' @ join_comma (t # ss)"

definition join_uids :: "nat list \<Rightarrow> string" where
  "join_uids uids = join_comma (map string_of_nat uids)"

section \<open>Mutation operations (Imap.deleteMails, seeMails, unseeMails)\<close>

text \<open>
  The answers of the client that an operation meets: \<open>getMailboxLock\<close> resolves to a
  lock object or to a falsy value, or rejects; the store call resolves to a boolean or
  rejects.
\<close>

datatype lock_reply = LockObject | LockFalsy | LockRejects

datatype store_reply = StoreReturns bool | StoreRejects

definition deleteMails ::
  "lock_reply \<Rightarrow> store_reply \<Rightarrow> string \<Rightarrow> UidsList \<Rightarrow> (error + bool) \<times> action list" where
  "deleteMails lk sr mailboxPath toDelete =
     (let uids = uidsAndMailsToUids toDelete in
      case lk of
        LockRejects \<Rightarrow> (Inl ClientError, [GetMailboxLock mailboxPath])
      | LockFalsy \<Rightarrow> (Inr False, [GetMailboxLock mailboxPath])
      | LockObject \<Rightarrow>
          (case sr of
             StoreRejects \<Rightarrow>
               (Inl ClientError, [GetMailboxLock mailboxPath, MessageDelete (join_uids uids)])
           | StoreReturns result \<Rightarrow>
               (Inr result,
                [GetMailboxLock mailboxPath, MessageDelete (join_uids uids)]
                @ (if result then map (\<lambda>u. Emit (DeletedMailEvent u)) uids else [])
                @ [LockRelease mailboxPath])))"

definition seeMails ::
  "lock_reply \<Rightarrow> store_reply \<Rightarrow> string \<Rightarrow> UidsList \<Rightarrow> (error + bool) \<times> action list" where
  "seeMails lk sr mailboxPath toSee =
     (let uids = uidsAndMailsToUids toSee in
      case lk of
        LockRejects \<Rightarrow> (Inl ClientError, [GetMailboxLock mailboxPath])
      | LockFalsy \<Rightarrow> (Inr False, [GetMailboxLock mailboxPath])
      | LockObject \<Rightarrow>
          (case sr of
             StoreRejects \<Rightarrow>
               (Inl ClientError, [GetMailboxLock mailboxPath, MessageFlagsAdd (join_uids uids)])
           | StoreReturns result \<Rightarrow>
               (Inr result,
                [GetMailboxLock mailboxPath, MessageFlagsAdd (join_uids uids),
                 LockRelease mailboxPath])))"

definition unseeMails ::
  "lock_reply \<Rightarrow> store_reply \<Rightarrow> string \<Rightarrow> UidsList \<Rightarrow> (error + bool) \<times> action list" where
  "unseeMails lk sr mailboxPath toUnsee =
     (let uids = uidsAndMailsToUids toUnsee in
      case lk of
        LockRejects \<Rightarrow> (Inl ClientError, [GetMailboxLock mailboxPath])
      | LockFalsy \<Rightarrow> (Inr False, [GetMailboxLock mailboxPath])
      | LockObject \<Rightarrow>
          if length uids > 0 then
            (case sr of
               StoreRejects \<Rightarrow>
                 (Inl ClientError,
                  [GetMailboxLock mailboxPath, MessageFlagsRemove (join_uids uids)])
             | StoreReturns result \<Rightarrow>
                 (Inr result,
                  [GetMailboxLock mailboxPath, MessageFlagsRemove (join_uids uids),
                   LockRelease mailboxPath]))
          else (Inr False, [GetMailboxLock mailboxPath]))"

section \<open>The registry and the searches (Imap.search, getNewMail, getLastUid, getLastMails)\<close>

record Mailbox =
  path :: string
  lastUid :: nat

text \<open>
  The mutable fields of an \<open>Imap\<close> object.  \<open>mailboxes\<close> is a JavaScript \<open>Map\<close>: an
  association list in insertion order, where \<open>set\<close> on a present key replaces the
  value in place (\<open>AList.update\<close>) and \<open>get\<close> is \<open>map_of\<close>.
\<close>

record Imap =
  mailboxes :: "(string \<times> Mailbox) list"
  loadedMails :: "Mail list"

text \<open>
  What the store answers to one \<open>search\<close>: the lock request rejects or resolves to a
  falsy value, or the lock is granted and the fetch rejects or yields messages.
\<close>

datatype search_reply =
    SearchLockRejects
  | SearchLockFalsy
  | FetchRejects
  | FetchYields "FetchMessageObject list"

definition search :: "search_reply \<Rightarrow> string \<Rightarrow> (error + FetchMessageObject list) \<times> action list" where
  "search reply mailboxPath =
     (case reply of
        SearchLockRejects \<Rightarrow> (Inl ClientError, [GetMailboxLock mailboxPath])
      | SearchLockFalsy \<Rightarrow> (Inr [], [GetMailboxLock mailboxPath])
      | FetchRejects \<Rightarrow> (Inl ClientError, [GetMailboxLock mailboxPath, ClientFetch])
      | FetchYields msgs \<Rightarrow>
          (Inr msgs, [GetMailboxLock mailboxPath, ClientFetch, LockRelease mailboxPath]))"

text \<open>\<open>Object.assign(headers, body)\<close>: the fields the body has replace those of the headers.\<close>

definition object_assign :: "ParsedMail \<Rightarrow> ParsedMail \<Rightarrow> ParsedMail" where
  "object_assign h b =
     \<lparr> subject = (case subject b of None \<Rightarrow> subject h | Some v \<Rightarrow> Some v),
       sender = (case sender b of None \<Rightarrow> sender h | Some v \<Rightarrow> Some v),
       text_body = (case text_body b of None \<Rightarrow> text_body h | Some v \<Rightarrow> Some v) \<rparr>"

text \<open>\<open>mailparser.simpleParser\<close> is a parameter: it resolves to a parsed mail or rejects.\<close>

type_synonym parser = "string \<Rightarrow> error + ParsedMail"

definition getNewMail :: "parser \<Rightarrow> string \<Rightarrow> FetchMessageObject \<Rightarrow> error + Mail" where
  "getNewMail simpleParser mailboxPath msg =
     (case simpleParser (headers msg) of
        Inl e \<Rightarrow> Inl e
      | Inr hdrs \<Rightarrow>
          (case bodyPart_text msg of
             None \<Rightarrow> Inr (new_Mail mailboxPath msg hdrs)
           | Some bodyPart \<Rightarrow>
               (case simpleParser bodyPart of
                  Inl e \<Rightarrow> Inl e
                | Inr body \<Rightarrow> Inr (new_Mail mailboxPath msg (object_assign hdrs body)))))"

fun getLastUid_loop ::
  "parser \<Rightarrow> string \<Rightarrow> bool \<Rightarrow> FetchMessageObject list \<Rightarrow> nat \<Rightarrow> Imap \<Rightarrow> (error + nat) \<times> Imap" where
  "getLastUid_loop sp mailboxPath loading [] lu st = (Inr lu, st)"
| "getLastUid_loop sp mailboxPath loading (msg # msgs) lu st =
     (let lu' = (if uid msg > lu then uid msg else lu) in
      if loading then
        (case getNewMail sp mailboxPath msg of
           Inl e \<Rightarrow> (Inl e, st)
         | Inr mail \<Rightarrow>
             getLastUid_loop sp mailboxPath loading msgs lu'
               (st\<lparr>loadedMails := loadedMails st @ [mail]\<rparr>))
      else getLastUid_loop sp mailboxPath loading msgs lu' st)"

definition getLastUid ::
  "parser \<Rightarrow> search_reply \<Rightarrow> string \<Rightarrow> bool \<Rightarrow> Imap \<Rightarrow> (error + nat) \<times> Imap \<times> action list" where
  "getLastUid sp reply mailboxPath loading st =
     (case search reply mailboxPath of
        (Inl e, acts) \<Rightarrow> (Inl e, st, acts)
      | (Inr msgs, acts) \<Rightarrow>
          (case getLastUid_loop sp mailboxPath loading msgs 1 st of
             (r, st') \<Rightarrow> (r, st', acts)))"

fun getLastMails_loop ::
  "parser \<Rightarrow> Mailbox \<Rightarrow> FetchMessageObject list \<Rightarrow> Mail list \<Rightarrow> error + Mail list" where
  "getLastMails_loop sp mailbox [] mails = Inr mails"
| "getLastMails_loop sp mailbox (msg # msgs) mails =
     (if uid msg > lastUid mailbox then
        (case getNewMail sp (path mailbox) msg of
           Inl e \<Rightarrow> Inl e
         | Inr mail \<Rightarrow> getLastMails_loop sp mailbox msgs (mails @ [mail]))
      else getLastMails_loop sp mailbox msgs mails)"

definition getLastMails ::
  "parser \<Rightarrow> search_reply \<Rightarrow> Mailbox \<Rightarrow> (error + Mail list) \<times> action list" where
  "getLastMails sp reply mailbox =
     (case search reply (path mailbox) of
        (Inl e, acts) \<Rightarrow> (Inl e, acts)
      | (Inr msgs, acts) \<Rightarrow> (getLastMails_loop sp mailbox msgs [], acts))"

section \<open>Polling (Imap.watchMailbox, watchMailboxes)\<close>

text \<open>
  One poll.  The source changes \<open>lastUid\<close> of the object it got from the map, which
  changes the entry under \<open>mailboxToWatch\<close>, and then sets the same object under its own
  path.  Every error of the \<open>try\<close> block is caught and logged.
\<close>

definition watchMailbox ::
  "ImapConfig \<Rightarrow> parser \<Rightarrow> search_reply \<Rightarrow> string \<Rightarrow> Imap \<Rightarrow> Imap \<times> action list" where
  "watchMailbox cfg sp reply mailboxToWatch st =
     (case map_of (mailboxes st) mailboxToWatch of
        None \<Rightarrow> (st, [])
      | Some mailbox \<Rightarrow>
          (case getLastMails sp reply mailbox of
             (Inl e, acts) \<Rightarrow>
               (st, acts @ log cfg (ErrorWhileWatching mailboxToWatch (auth_user cfg)) Yellow)
           | (Inr mails, acts) \<Rightarrow>
               if length mails > 0 then
                 (let mailbox' = mailbox\<lparr>lastUid := mail_uid (last mails)\<rparr> in
                  (st\<lparr>mailboxes :=
                        AList.update (path mailbox') mailbox'
                          (AList.update mailboxToWatch mailbox' (mailboxes st))\<rparr>,
                   acts @ map (\<lambda>mail. Emit (NewMailEvent mail)) mails))
               else (st, acts)))"

text \<open>A sequence of polls of one mailbox, one store answer per poll.\<close>

fun polls ::
  "ImapConfig \<Rightarrow> parser \<Rightarrow> string \<Rightarrow> search_reply list \<Rightarrow> Imap \<Rightarrow> Imap \<times> action list" where
  "polls cfg sp p [] st = (st, [])"
| "polls cfg sp p (reply # replies) st =
     (case watchMailbox cfg sp reply p st of
        (st1, acts1) \<Rightarrow>
          (case polls cfg sp p replies st1 of
             (st2, acts2) \<Rightarrow> (st2, acts1 @ acts2)))"

fun watchMailboxes_loop ::
  "ImapConfig \<Rightarrow> parser \<Rightarrow> (nat \<Rightarrow> search_reply) \<Rightarrow> nat \<Rightarrow> string list \<Rightarrow> Imap
     \<Rightarrow> Imap \<times> action list" where
  "watchMailboxes_loop cfg sp watch_reply i [] st = (st, [])"
| "watchMailboxes_loop cfg sp watch_reply i (mailboxToWatch # rest) st =
     (let interval = or_default (mailboxesWatchInterval cfg) DEFAULT_MAILBOXES_INTERVAL;
          acts1 = log cfg (WatchingMailbox mailboxToWatch (interval / 1000) (auth_user cfg)) Yellow
      in case watchMailbox cfg sp (watch_reply i) mailboxToWatch st of
           (st1, acts2) \<Rightarrow>
             (case watchMailboxes_loop cfg sp watch_reply (Suc i) rest st1 of
                (st2, acts3) \<Rightarrow>
                  (st2,
                   acts1 @ acts2 @ [SetInterval (WatchMailboxCallback mailboxToWatch) interval]
                   @ acts3)))"

definition watchMailboxes ::
  "ImapConfig \<Rightarrow> parser \<Rightarrow> (nat \<Rightarrow> search_reply) \<Rightarrow> Imap \<Rightarrow> Imap \<times> action list" where
  "watchMailboxes cfg sp watch_reply st =
     (case mailboxesToWatch cfg of
        None \<Rightarrow> (st, [])
      | Some toWatch \<Rightarrow> watchMailboxes_loop cfg sp watch_reply 0 toWatch st)"

section \<open>Startup (Imap.run, connect, restart, watchErrors, loadMailboxes)\<close>

definition restart :: "ImapConfig \<Rightarrow> action list" where
  "restart cfg =
     log cfg (CouldNotConnect (auth_user cfg)) Red
     @ [SetTimeout RunCallback (or_default (reconnectInterval cfg) DEFAULT_RECONNECT_INTERVAL)]"

text \<open>\<open>connect\<close> catches the rejection of \<open>client.connect()\<close> and calls \<open>restart\<close>.\<close>

definition connect :: "ImapConfig \<Rightarrow> bool \<Rightarrow> action list" where
  "connect cfg connect_resolves =
     log cfg (TryingToConnect (auth_user cfg)) White
     @ [NewImapFlow, ClientConnect]
     @ (if connect_resolves then log cfg (Connected (auth_user cfg)) Green else restart cfg)"

text \<open>\<open>watchErrors\<close> registers a handler; \<open>error_handler\<close> is what the handler does.\<close>

definition watchErrors :: "action list" where
  "watchErrors = [ClientOnError]"

definition error_handler :: "ImapConfig \<Rightarrow> action list" where
  "error_handler cfg =
     (let timeout = or_default (reconnectInterval cfg) DEFAULT_RECONNECT_INTERVAL / 1000 in
      log cfg (ErrorDetected timeout) Red @ [SetTimeout RunCallback timeout])"

fun loadMailboxes_loop ::
  "parser \<Rightarrow> (nat \<Rightarrow> search_reply) \<Rightarrow> nat \<Rightarrow> string list \<Rightarrow> Imap
     \<Rightarrow> (error + unit) \<times> Imap \<times> action list" where
  "loadMailboxes_loop sp load_reply i [] st = (Inr (), st, [])"
| "loadMailboxes_loop sp load_reply i (list_path # rest) st =
     (case getLastUid sp (load_reply i) list_path True st of
        (Inl e, st1, acts1) \<Rightarrow> (Inl e, st1, acts1)
      | (Inr lu, st1, acts1) \<Rightarrow>
          (let mailbox = \<lparr>path = list_path, lastUid = lu\<rparr>;
               st2 = st1\<lparr>mailboxes := AList.update (path mailbox) mailbox (mailboxes st1)\<rparr>
           in case loadMailboxes_loop sp load_reply (Suc i) rest st2 of
                (r, st3, acts2) \<Rightarrow> (r, st3, acts1 @ acts2)))"

definition loadMailboxes ::
  "ImapConfig \<Rightarrow> parser \<Rightarrow> error + string list \<Rightarrow> (nat \<Rightarrow> search_reply) \<Rightarrow> Imap
     \<Rightarrow> (error + unit) \<times> Imap \<times> action list" where
  "loadMailboxes cfg sp list_reply load_reply st =
     (case list_reply of
        Inl e \<Rightarrow> (Inl e, st, [ClientList])
      | Inr listResponses \<Rightarrow>
          (case loadMailboxes_loop sp load_reply 0 listResponses st of
             (Inl e, st1, acts) \<Rightarrow> (Inl e, st1, ClientList # acts)
           | (Inr u, st1, acts) \<Rightarrow>
               (Inr (), st1,
                ClientList # acts
                @ log cfg (LoadedMailboxes (length (mailboxes st1)) (auth_user cfg)) Green)))"

text \<open>
  What the outside answers during one call of \<open>run\<close>: whether \<open>client.connect()\<close>
  resolves, what \<open>client.list()\<close> resolves to (the paths) or that it rejects, the answer
  to the search of the \<open>i\<close>-th listed mailbox and to the first poll of the \<open>i\<close>-th
  watched mailbox, and the parser.
\<close>

record World =
  connect_resolves :: bool
  list_reply :: "error + string list"
  load_reply :: "nat \<Rightarrow> search_reply"
  watch_reply :: "nat \<Rightarrow> search_reply"
  simpleParser :: parser

text \<open>
  \<open>run\<close>: \<open>Inl\<close> is a rejection of the promise it returns.  \<open>watchErrors\<close> is called
  without \<open>await\<close>; its body has run when the call returns.
\<close>

definition run :: "ImapConfig \<Rightarrow> World \<Rightarrow> Imap \<Rightarrow> (error + unit) \<times> Imap \<times> action list" where
  "run cfg w st =
     (let acts1 = connect cfg (connect_resolves w);
          acts2 = watchErrors
      in case loadMailboxes cfg (simpleParser w) (list_reply w) (load_reply w) st of
           (Inl e, st1, acts3) \<Rightarrow> (Inl e, st1, acts1 @ acts2 @ acts3)
         | (Inr u, st1, acts3) \<Rightarrow>
             (case watchMailboxes cfg (simpleParser w) (watch_reply w) st1 of
                (st2, acts4) \<Rightarrow>
                  (Inr (), st2,
                   acts1 @ acts2 @ acts3 @ acts4 @ [SetTimeout EmitLoadedMailsCallback 1000])))"

definition emitLoadedMails :: "Imap \<Rightarrow> Imap \<times> action list" where
  "emitLoadedMails st =
     (st\<lparr>loadedMails := []\<rparr>, map (\<lambda>mail. Emit (LoadedMailEvent mail)) (loadedMails st))"

section \<open>Vocabulary of the properties\<close>

text \<open>How often the lock of a mailbox is released in a run of actions.\<close>

definition releases :: "string \<Rightarrow> action list \<Rightarrow> nat" where
  "releases p acts = length (filter (\<lambda>a. a = LockRelease p) acts)"

text \<open>The events passed to the emitter, in order.\<close>

fun emitted :: "action list \<Rightarrow> event list" where
  "emitted [] = []"
| "emitted (Emit e # acts) = e # emitted acts"
| "emitted (a # acts) = emitted acts"

text \<open>The events emitted once the lock of the mailbox has been released.\<close>

definition emitted_after_release :: "string \<Rightarrow> action list \<Rightarrow> event list" where
  "emitted_after_release p acts = emitted (dropWhile (\<lambda>a. a \<noteq> LockRelease p) acts)"

text \<open>The identifiers of the \<open>newMail\<close> events, in order.\<close>

fun arrived_uids :: "action list \<Rightarrow> nat list" where
  "arrived_uids [] = []"
| "arrived_uids (Emit (NewMailEvent mail) # acts) = mail_uid mail # arrived_uids acts"
| "arrived_uids (a # acts) = arrived_uids acts"

text \<open>The watermark the registry holds for a path.\<close>

definition watermark :: "Imap \<Rightarrow> string \<Rightarrow> nat option" where
  "watermark st p = map_option lastUid (map_of (mailboxes st) p)"

text \<open>The identifiers a store answer carries.\<close>

definition fetched_uids :: "search_reply \<Rightarrow> nat list" where
  "fetched_uids reply = (case reply of FetchYields msgs \<Rightarrow> map uid msgs | _ \<Rightarrow> [])"

text \<open>The parser accepts a message.\<close>

definition parses :: "parser \<Rightarrow> string \<Rightarrow> FetchMessageObject \<Rightarrow> bool" where
  "parses sp p msg = (case getNewMail sp p msg of Inl e \<Rightarrow> False | Inr mail \<Rightarrow> True)"

text \<open>
  A store answer is orderly when the messages it yields come in ascending identifier
  order and the parser accepts each of them.
\<close>

definition orderly :: "parser \<Rightarrow> string \<Rightarrow> search_reply \<Rightarrow> bool" where
  "orderly sp p reply =
     (case reply of
        FetchYields msgs \<Rightarrow> sorted (map uid msgs) \<and> list_all (parses sp p) msgs
      | _ \<Rightarrow> True)"

text \<open>The calls that change the store: delete, add a flag, remove a flag.\<close>

fun store_calls :: "action list \<Rightarrow> action list" where
  "store_calls [] = []"
| "store_calls (MessageDelete s # acts) = MessageDelete s # store_calls acts"
| "store_calls (MessageFlagsAdd s # acts) = MessageFlagsAdd s # store_calls acts"
| "store_calls (MessageFlagsRemove s # acts) = MessageFlagsRemove s # store_calls acts"
| "store_calls (a # acts) = store_calls acts"

section \<open>Concrete inputs\<close>

text \<open>
  A configuration with every optional interval left out, a store that cannot be reached,
  a registry holding \<open>INBOX\<close> at watermark 1, messages with a given identifier and a
  parser that accepts everything.
\<close>

definition default_config :: ImapConfig where
  "default_config =
     \<lparr> auth_user = ''user@example.org'', logging = None, reconnectInterval = None,
       mailboxesToWatch = Some [''INBOX''], mailboxesWatchInterval = None \<rparr>"

definition unreachable_world :: World where
  "unreachable_world =
     \<lparr> connect_resolves = False, list_reply = Inl ClientError,
       load_reply = (\<lambda>i. SearchLockRejects), watch_reply = (\<lambda>i. SearchLockRejects),
       simpleParser = (\<lambda>s. Inl ParserError) \<rparr>"

definition fresh_imap :: Imap where
  "fresh_imap = \<lparr> mailboxes = [], loadedMails = [] \<rparr>"

definition inbox_at_1 :: Imap where
  "inbox_at_1 = \<lparr> mailboxes = [(''INBOX'', \<lparr>path = ''INBOX'', lastUid = 1\<rparr>)], loadedMails = [] \<rparr>"

definition msg_with_uid :: "nat \<Rightarrow> FetchMessageObject" where
  "msg_with_uid n = \<lparr> uid = n, seq = n, headers = ''Subject: hello'', bodyPart_text = None \<rparr>"

definition header_parser :: parser where
  "header_parser s = Inr \<lparr> subject = Some s, sender = None, text_body = None \<rparr>"

section \<open>Facts about the model\<close>

lemma parseContent_raise_empty:
  "parseContent_try c = Inl e \<Longrightarrow> parseContent c = []"
  by (simp add: parseContent_def)

lemma parseContent_empty: "parseContent [] = []"
  by (simp add: parseContent_def parseContent_try_def js_split.simps)

lemma getNewMail_uid: "getNewMail sp p msg = Inr mail \<Longrightarrow> mail_uid mail = uid msg"
  by (auto simp: getNewMail_def new_Mail_def split: sum.splits option.splits)

lemma getLastMails_loop_new:
  "getLastMails_loop sp mb msgs acc = Inr mails \<Longrightarrow>
   \<exists>new. mails = acc @ new \<and> (\<forall>m\<in>set new. lastUid mb < mail_uid m)"
proof (induction msgs arbitrary: acc)
  case Nil
  then show ?case by simp
next
  case (Cons msg msgs)
  show ?case
  proof (cases "lastUid mb < uid msg")
    case False
    with Cons show ?thesis by simp
  next
    case True
    with Cons.prems obtain mail where m: "getNewMail sp (path mb) msg = Inr mail"
      and l: "getLastMails_loop sp mb msgs (acc @ [mail]) = Inr mails"
      by (auto split: sum.splits)
    from Cons.IH [OF l] obtain new where "mails = (acc @ [mail]) @ new" "\<forall>m\<in>set new. lastUid mb < mail_uid m"
      by blast
    with True getNewMail_uid [OF m] show ?thesis
      by (intro exI [of _ "mail # new"]) simp
  qed
qed

lemma watchMailbox_watermark:
  assumes "map_of (mailboxes st) p = Some mb"
  shows "\<exists>mb'. map_of (mailboxes (fst (watchMailbox cfg sp r p st))) p = Some mb'
           \<and> path mb' = path mb \<and> lastUid mb \<le> lastUid mb'"
proof (cases "getLastMails sp r mb")
  case (Pair res acts)
  show ?thesis
  proof (cases res)
    case (Inl e)
    with Pair assms show ?thesis by (simp add: watchMailbox_def)
  next
    case (Inr mails)
    show ?thesis
    proof (cases "mails = []")
      case True
      with Pair Inr assms show ?thesis by (simp add: watchMailbox_def)
    next
      case False
      from Pair Inr obtain msgs where "getLastMails_loop sp mb msgs [] = Inr mails"
        by (auto simp: getLastMails_def split: prod.splits sum.splits)
      from getLastMails_loop_new [OF this] have "\<forall>m\<in>set mails. lastUid mb < mail_uid m"
        by simp
      with False have "lastUid mb < mail_uid (last mails)" by simp
      with Pair Inr assms False show ?thesis
        by (simp add: watchMailbox_def update_conv' Let_def)
    qed
  qed
qed

lemma fst_polls_Cons:
  "fst (polls cfg sp p (r # rs) st) = fst (polls cfg sp p rs (fst (watchMailbox cfg sp r p st)))"
  by (simp split: prod.splits)

lemma polls_append:
  "fst (polls cfg sp p (rs1 @ rs2) st) = fst (polls cfg sp p rs2 (fst (polls cfg sp p rs1 st)))"
proof (induction rs1 arbitrary: st)
  case Nil
  show ?case by simp
next
  case (Cons r rs1)
  have "fst (polls cfg sp p ((r # rs1) @ rs2) st)
        = fst (polls cfg sp p (rs1 @ rs2) (fst (watchMailbox cfg sp r p st)))"
    by (simp only: append_Cons fst_polls_Cons)
  also have "\<dots> = fst (polls cfg sp p rs2 (fst (polls cfg sp p rs1 (fst (watchMailbox cfg sp r p st)))))"
    by (rule Cons.IH)
  also have "\<dots> = fst (polls cfg sp p rs2 (fst (polls cfg sp p (r # rs1) st)))"
    by (simp only: fst_polls_Cons)
  finally show ?case .
qed

lemma polls_watermark:
  "map_of (mailboxes st) p = Some mb \<Longrightarrow>
   \<exists>mb'. map_of (mailboxes (fst (polls cfg sp p rs st))) p = Some mb'
          \<and> path mb' = path mb \<and> lastUid mb \<le> lastUid mb'"
proof (induction rs arbitrary: st mb)
  case Nil
  then show ?case by simp
next
  case (Cons r rs)
  from watchMailbox_watermark [OF Cons.prems, of cfg sp r]
  obtain mb1 where 1: "map_of (mailboxes (fst (watchMailbox cfg sp r p st))) p = Some mb1"
    and 2: "path mb1 = path mb" "lastUid mb \<le> lastUid mb1"
    by blast
  from Cons.IH [OF 1] obtain mb2
    where "map_of (mailboxes (fst (polls cfg sp p rs (fst (watchMailbox cfg sp r p st))))) p = Some mb2"
      "path mb2 = path mb1" "lastUid mb1 \<le> lastUid mb2"
    by blast
  with 2 show ?case
    by (simp only: fst_polls_Cons) auto
qed

lemma getLastMails_loop_parsed:
  "list_all (parses sp (path mb)) msgs \<Longrightarrow>
   \<exists>mails. getLastMails_loop sp mb msgs acc = Inr mails
          \<and> map mail_uid mails = map mail_uid acc @ filter (\<lambda>u. lastUid mb < u) (map uid msgs)"
proof (induction msgs arbitrary: acc)
  case Nil
  then show ?case by simp
next
  case (Cons msg msgs)
  then obtain mail where m: "getNewMail sp (path mb) msg = Inr mail"
    by (auto simp: parses_def split: sum.splits)
  from Cons.prems have rest: "list_all (parses sp (path mb)) msgs" by simp
  show ?case
  proof (cases "lastUid mb < uid msg")
    case False
    with Cons.IH [OF rest, of acc] show ?thesis by simp
  next
    case True
    with Cons.IH [OF rest, of "acc @ [mail]"] m getNewMail_uid [OF m] show ?thesis by simp
  qed
qed

text \<open>What a poll does when the store yields messages that the parser accepts.\<close>

lemma watchMailbox_parsed:
  assumes "map_of (mailboxes st) p = Some mb" and "list_all (parses sp (path mb)) msgs"
  shows "\<exists>mails. map mail_uid mails = filter (\<lambda>u. lastUid mb < u) (map uid msgs)
          \<and> watchMailbox cfg sp (FetchYields msgs) p st =
              (if mails = [] then st
               else st\<lparr>mailboxes :=
                         AList.update (path mb) (mb\<lparr>lastUid := last (map mail_uid mails)\<rparr>)
                           (AList.update p (mb\<lparr>lastUid := last (map mail_uid mails)\<rparr>) (mailboxes st))\<rparr>,
               [GetMailboxLock (path mb), ClientFetch, LockRelease (path mb)]
               @ map (\<lambda>mail. Emit (NewMailEvent mail)) mails)"
proof -
  from getLastMails_loop_parsed [OF assms(2), of "[]"] obtain mails
    where l: "getLastMails_loop sp mb msgs [] = Inr mails"
      and u: "map mail_uid mails = filter (\<lambda>u. lastUid mb < u) (map uid msgs)"
    by auto
  from l assms(1) have "watchMailbox cfg sp (FetchYields msgs) p st =
              (if mails = [] then st
               else st\<lparr>mailboxes :=
                         AList.update (path mb) (mb\<lparr>lastUid := last (map mail_uid mails)\<rparr>)
                           (AList.update p (mb\<lparr>lastUid := last (map mail_uid mails)\<rparr>) (mailboxes st))\<rparr>,
               [GetMailboxLock (path mb), ClientFetch, LockRelease (path mb)]
               @ map (\<lambda>mail. Emit (NewMailEvent mail)) mails)"
    by (simp add: watchMailbox_def getLastMails_def search_def Let_def last_map)
  with u show ?thesis by blast
qed

lemma arrived_uids_emits:
  "arrived_uids (map (\<lambda>mail. Emit (NewMailEvent mail)) mails) = map mail_uid mails"
  by (induction mails) simp_all

lemma sorted_last_Max: "sorted us \<Longrightarrow> us \<noteq> [] \<Longrightarrow> last us = Max (set us)"
proof (induction us)
  case Nil
  then show ?case by simp
next
  case (Cons u us)
  show ?case
  proof (cases "us = []")
    case True
    then show ?thesis by simp
  next
    case False
    with Cons have l: "last us = Max (set us)" and le: "\<forall>v\<in>set us. u \<le> v" by auto
    from False obtain v where v: "v \<in> set us" by (cases us) auto
    with le have "u \<le> v" by simp
    also from v have "v \<le> Max (set us)" by simp
    finally have "max u (Max (set us)) = Max (set us)" by (simp add: max_absorb2)
    with False l show ?thesis by simp
  qed
qed

lemma sorted_last_filter:
  assumes "sorted (us :: nat list)" and "v \<in> set us" and "w < v"
  shows "filter (\<lambda>u. w < u) us \<noteq> [] \<and> last (filter (\<lambda>u. w < u) us) = Max (set us)"
proof -
  from assms(2) have ne: "us \<noteq> []" by auto
  with assms(1) have lm: "last us = Max (set us)" by (rule sorted_last_Max)
  from assms(2) have "v \<le> Max (set us)" by simp
  with assms(3) lm have big: "w < last us" by simp
  from assms(2,3) have f: "filter (\<lambda>u. w < u) us \<noteq> []"
    by (auto simp: filter_empty_conv)
  from ne big have "last (filter (\<lambda>u. w < u) us) = last us"
    by (induction us) (auto split: if_splits simp: filter_empty_conv)
  with f lm show ?thesis by simp
qed

lemma watchMailbox_orderly:
  assumes reg: "map_of (mailboxes st) p = Some mb" and ord: "orderly sp (path mb) r"
  shows "\<exists>mb'. map_of (mailboxes (fst (watchMailbox cfg sp r p st))) p = Some mb'
           \<and> path mb' = path mb \<and> lastUid mb \<le> lastUid mb'
           \<and> (\<forall>u\<in>set (fetched_uids r). u \<le> lastUid mb')
           \<and> ((\<exists>u\<in>set (fetched_uids r). lastUid mb < u) \<longrightarrow> lastUid mb' \<in> set (fetched_uids r))"
proof (cases "\<exists>msgs. r = FetchYields msgs")
  case False
  then have "fetched_uids r = []"
    by (cases r) (simp_all add: fetched_uids_def)
  with watchMailbox_watermark [OF reg, of cfg sp r] show ?thesis by auto
next
  case True
  then obtain msgs where r: "r = FetchYields msgs" by blast
  with ord have srt: "sorted (map uid msgs)" and prs: "list_all (parses sp (path mb)) msgs"
    by (simp_all add: orderly_def)
  from watchMailbox_parsed [OF reg prs, of cfg] obtain mails
    where u: "map mail_uid mails = filter (\<lambda>u. lastUid mb < u) (map uid msgs)"
      and w: "watchMailbox cfg sp (FetchYields msgs) p st =
              (if mails = [] then st
               else st\<lparr>mailboxes :=
                         AList.update (path mb) (mb\<lparr>lastUid := last (map mail_uid mails)\<rparr>)
                           (AList.update p (mb\<lparr>lastUid := last (map mail_uid mails)\<rparr>) (mailboxes st))\<rparr>,
               [GetMailboxLock (path mb), ClientFetch, LockRelease (path mb)]
               @ map (\<lambda>mail. Emit (NewMailEvent mail)) mails)"
    by blast
  have fu: "fetched_uids r = map uid msgs" by (simp add: r fetched_uids_def)
  show ?thesis
  proof (cases "mails = []")
    case True
    with u have "filter (\<lambda>u. lastUid mb < u) (map uid msgs) = []" by simp
    then have "\<forall>v\<in>set (map uid msgs). \<not> lastUid mb < v"
      by (simp only: filter_empty_conv) 
    then have "\<forall>v\<in>set (map uid msgs). v \<le> lastUid mb" by auto
    with True w reg fu r show ?thesis by auto
  next
    case False
    with u obtain v where v: "v \<in> set (map uid msgs)" "lastUid mb < v"
      by (metis filter_empty_conv map_is_Nil_conv)
    from sorted_last_filter [OF srt v] u
    have l: "last (map mail_uid mails) = Max (set (map uid msgs))" by simp
    from v have ne: "set (map uid msgs) \<noteq> {}" by auto
    have mem: "Max (set (map uid msgs)) \<in> set (map uid msgs)"
      by (rule Max_in) (use ne in simp_all)
    have ge: "\<forall>x\<in>set (map uid msgs). x \<le> Max (set (map uid msgs))" by simp
    from v(1) have "v \<le> Max (set (map uid msgs))" by (rule Max_ge [OF finite_set])
    with v(2) have "lastUid mb \<le> Max (set (map uid msgs))" by linarith
    with False w reg r fu l mem ge show ?thesis
      by (simp add: update_conv')
  qed
qed

lemma polls_orderly_bound:
  "map_of (mailboxes st) p = Some mb \<Longrightarrow> \<forall>r\<in>set rs. orderly sp (path mb) r \<Longrightarrow>
   \<exists>mb'. map_of (mailboxes (fst (polls cfg sp p rs st))) p = Some mb'
          \<and> path mb' = path mb \<and> lastUid mb \<le> lastUid mb'
          \<and> (\<forall>u\<in>set (concat (map fetched_uids rs)). u \<le> lastUid mb')"
proof (induction rs arbitrary: st mb)
  case Nil
  then show ?case by simp
next
  case (Cons r rs)
  from Cons.prems(2) have o1: "orderly sp (path mb) r" by simp
  from watchMailbox_orderly [OF Cons.prems(1) o1, of cfg]
  obtain mb1 where 1: "map_of (mailboxes (fst (watchMailbox cfg sp r p st))) p = Some mb1"
    and 2: "path mb1 = path mb" "lastUid mb \<le> lastUid mb1"
      "\<forall>u\<in>set (fetched_uids r). u \<le> lastUid mb1"
    by blast
  from Cons.prems(2) 2(1) have o2: "\<forall>r\<in>set rs. orderly sp (path mb1) r" by simp
  from Cons.IH [OF 1 o2] obtain mb2
    where 3: "map_of (mailboxes (fst (polls cfg sp p rs (fst (watchMailbox cfg sp r p st))))) p = Some mb2"
      "path mb2 = path mb1" "lastUid mb1 \<le> lastUid mb2"
      "\<forall>u\<in>set (concat (map fetched_uids rs)). u \<le> lastUid mb2"
    by blast
  from 2 3 have "\<forall>u\<in>set (concat (map fetched_uids (r # rs))). u \<le> lastUid mb2"
    by fastforce
  with 2 3 show ?case
    by (simp only: fst_polls_Cons) auto
qed

text \<open>
  For a registered mailbox the watermark never decreases over any sequence of polls.
  When every fetch came in ascending identifier order and was accepted by the parser,
  a poll that finds new messages leaves the watermark at the maximum identifier fetched
  so far.
\<close>

lemma polls_watermark_ascending:
  assumes reg: "map_of (mailboxes st) p = Some mb"
  shows "\<exists>w1 w2. watermark (fst (polls cfg sp p rs1 st)) p = Some w1
           \<and> watermark (fst (polls cfg sp p (rs1 @ rs2) st)) p = Some w2
           \<and> w1 \<le> w2
           \<and> (rs2 = [FetchYields msgs] \<and> (\<forall>r\<in>set (rs1 @ rs2). orderly sp (path mb) r)
                \<and> (\<exists>m\<in>set msgs. w1 < uid m)
              \<longrightarrow> w2 = Max (set (concat (map fetched_uids (rs1 @ rs2)))))"
proof -
  let ?st1 = "fst (polls cfg sp p rs1 st)"
  from polls_watermark [OF reg, of cfg sp rs1] obtain mb1
    where 1: "map_of (mailboxes ?st1) p = Some mb1" and p1: "path mb1 = path mb"
    by blast
  from polls_watermark [OF 1, of cfg sp rs2] obtain mb2
    where 2: "map_of (mailboxes (fst (polls cfg sp p rs2 ?st1))) p = Some mb2"
      and le: "lastUid mb1 \<le> lastUid mb2"
    by blast
  have w1: "watermark ?st1 p = Some (lastUid mb1)"
    by (simp add: watermark_def 1)
  have w2: "watermark (fst (polls cfg sp p (rs1 @ rs2) st)) p = Some (lastUid mb2)"
    by (simp add: watermark_def polls_append 2)
  have "lastUid mb2 = Max (set (concat (map fetched_uids (rs1 @ rs2))))"
    if rs2: "rs2 = [FetchYields msgs]"
      and ord: "\<forall>r\<in>set (rs1 @ rs2). orderly sp (path mb) r"
      and new: "\<exists>m\<in>set msgs. lastUid mb1 < uid m"
  proof -
    from ord have o1: "\<forall>r\<in>set rs1. orderly sp (path mb) r" by simp
    from polls_orderly_bound [OF reg o1, of cfg] 1
    have b1: "\<forall>u\<in>set (concat (map fetched_uids rs1)). u \<le> lastUid mb1" by auto
    from ord rs2 p1 have o2: "orderly sp (path mb1) (FetchYields msgs)" by simp
    have st2: "fst (polls cfg sp p rs2 ?st1) = fst (watchMailbox cfg sp (FetchYields msgs) p ?st1)"
      by (simp add: rs2 split: prod.splits)
    from new have new': "\<exists>u\<in>set (fetched_uids (FetchYields msgs)). lastUid mb1 < u"
      by (auto simp: fetched_uids_def)
    from watchMailbox_orderly [OF 1 o2, of cfg] 2 st2 new'
    have b2: "\<forall>u\<in>set (fetched_uids (FetchYields msgs)). u \<le> lastUid mb2"
      and m2: "lastUid mb2 \<in> set (fetched_uids (FetchYields msgs))"
      by auto
    from b1 b2 le rs2 have "\<forall>u\<in>set (concat (map fetched_uids (rs1 @ rs2))). u \<le> lastUid mb2"
      by fastforce
    moreover from m2 rs2 have "lastUid mb2 \<in> set (concat (map fetched_uids (rs1 @ rs2)))"
      by simp
    ultimately show ?thesis
      by (intro Max_eqI [symmetric]) auto
  qed
  with w1 w2 le show ?thesis by auto
qed

text \<open>
  Two polls of a mailbox at watermark 1 whose fetches yield identifiers 1, 2, 3 and then
  1, 2, 3, 4, 5 in this order: the first emits \<open>newMail\<close> for 2 then 3 and leaves the
  watermark at 3, the second emits \<open>newMail\<close> for 4 then 5 and leaves it at 5.
\<close>

lemma two_polls_ascending:
  assumes reg: "map_of (mailboxes st) p = Some mb" and w: "lastUid mb = 1"
    and u1: "map uid msgs1 = [1, 2, 3]" and u2: "map uid msgs2 = [1, 2, 3, 4, 5]"
    and prs: "list_all (parses sp (path mb)) (msgs1 @ msgs2)"
  shows "(case watchMailbox cfg sp (FetchYields msgs1) p st of
            (st1, acts1) \<Rightarrow>
              (case watchMailbox cfg sp (FetchYields msgs2) p st1 of
                 (st2, acts2) \<Rightarrow>
                   arrived_uids acts1 = [2, 3] \<and> watermark st1 p = Some 3
                   \<and> arrived_uids acts2 = [4, 5] \<and> watermark st2 p = Some 5))"
proof -
  from prs have p1: "list_all (parses sp (path mb)) msgs1"
    and p2: "list_all (parses sp (path mb)) msgs2" by simp_all
  obtain st1 acts1 where r1: "watchMailbox cfg sp (FetchYields msgs1) p st = (st1, acts1)"
    by (cases "watchMailbox cfg sp (FetchYields msgs1) p st")
  have f1: "filter (\<lambda>u. lastUid mb < u) (map uid msgs1) = [2, 3]"
    by (simp add: w u1)
  from watchMailbox_parsed [OF reg p1, of cfg] obtain mails1
    where m1': "map mail_uid mails1 = filter (\<lambda>u. lastUid mb < u) (map uid msgs1)"
      and e1: "watchMailbox cfg sp (FetchYields msgs1) p st =
              (if mails1 = [] then st
               else st\<lparr>mailboxes :=
                         AList.update (path mb) (mb\<lparr>lastUid := last (map mail_uid mails1)\<rparr>)
                           (AList.update p (mb\<lparr>lastUid := last (map mail_uid mails1)\<rparr>) (mailboxes st))\<rparr>,
               [GetMailboxLock (path mb), ClientFetch, LockRelease (path mb)]
               @ map (\<lambda>mail. Emit (NewMailEvent mail)) mails1)"
    by blast
  from m1' f1 have m1: "map mail_uid mails1 = [2, 3]" by simp
  from m1 have ne1: "mails1 \<noteq> []" by auto
  from r1 e1 ne1 m1 have a1: "arrived_uids acts1 = [2, 3]"
    by (auto simp: arrived_uids_emits)
  define mb1 where "mb1 = mb\<lparr>lastUid := 3\<rparr>"
  from r1 e1 ne1 m1 have reg1: "map_of (mailboxes st1) p = Some mb1"
    by (auto simp: update_conv' mb1_def)
  have l1: "lastUid mb1 = 3" and pth1: "path mb1 = path mb" by (simp_all add: mb1_def)
  from reg1 l1 have w1: "watermark st1 p = Some 3" by (simp add: watermark_def)
  obtain st2 acts2 where r2: "watchMailbox cfg sp (FetchYields msgs2) p st1 = (st2, acts2)"
    by (cases "watchMailbox cfg sp (FetchYields msgs2) p st1")
  from p2 pth1 have p2': "list_all (parses sp (path mb1)) msgs2" by simp
  have f2: "filter (\<lambda>u. lastUid mb1 < u) (map uid msgs2) = [4, 5]"
    by (simp add: u2 l1)
  from watchMailbox_parsed [OF reg1 p2', of cfg] obtain mails2
    where m2': "map mail_uid mails2 = filter (\<lambda>u. lastUid mb1 < u) (map uid msgs2)"
      and e2: "watchMailbox cfg sp (FetchYields msgs2) p st1 =
              (if mails2 = [] then st1
               else st1\<lparr>mailboxes :=
                         AList.update (path mb1) (mb1\<lparr>lastUid := last (map mail_uid mails2)\<rparr>)
                           (AList.update p (mb1\<lparr>lastUid := last (map mail_uid mails2)\<rparr>) (mailboxes st1))\<rparr>,
               [GetMailboxLock (path mb1), ClientFetch, LockRelease (path mb1)]
               @ map (\<lambda>mail. Emit (NewMailEvent mail)) mails2)"
    by blast
  from m2' f2 have m2: "map mail_uid mails2 = [4, 5]" by simp
  from m2 have ne2: "mails2 \<noteq> []" by auto
  from r2 e2 ne2 m2 have a2: "arrived_uids acts2 = [4, 5]"
    by (auto simp: arrived_uids_emits)
  from r2 e2 ne2 m2 have "map_of (mailboxes st2) p = Some (mb1\<lparr>lastUid := 5\<rparr>)"
    by (auto simp: update_conv')
  then have w2: "watermark st2 p = Some 5" by (simp add: watermark_def)
  from r1 r2 a1 w1 a2 w2 show ?thesis by simp
qed

section \<open>The claims\<close>

text \<open>
  C1 (the code departs from it).  The claim: when the first connection attempt fails,
  \<open>run\<close> schedules a restart and returns normally without going on with the startup.
  The code: \<open>connect\<close> schedules the restart, but \<open>run\<close> goes on; it registers the
  error handler and calls \<open>list\<close> on the client that failed to connect.  When \<open>list\<close>
  rejects, \<open>run\<close> rejects; when \<open>list\<close> resolves, every later step runs as well.
\<close>

theorem run_goes_on_after_failed_connect:
  "run default_config unreachable_world fresh_imap =
     (Inl ClientError, fresh_imap,
      [NewImapFlow, ClientConnect, SetTimeout RunCallback 60000, ClientOnError, ClientList])
   \<and> run default_config (unreachable_world\<lparr>list_reply := Inr []\<rparr>) fresh_imap =
     (Inr (), fresh_imap,
      [NewImapFlow, ClientConnect, SetTimeout RunCallback 60000, ClientOnError, ClientList,
       SetInterval (WatchMailboxCallback ''INBOX'') 60000,
       SetTimeout EmitLoadedMailsCallback 1000])"
  by (simp add: run_def default_config_def unreachable_world_def fresh_imap_def connect_def
      restart_def log_def watchErrors_def loadMailboxes_def watchMailboxes_def watchMailbox_def
      or_default_def DEFAULT_RECONNECT_INTERVAL_def DEFAULT_MAILBOXES_INTERVAL_def)

text \<open>
  C2 (the code departs from it).  The claim: the error handler schedules the restart
  after the reconnect interval, the delay \<open>restart\<close> uses.  The code: the handler
  divides the interval by 1000 for its log message and passes that number of seconds
  to \<open>setTimeout\<close>; with the default interval the delay is 60 ms, not 60 000 ms
  (both numbers are exact in JavaScript's arithmetic as well).
\<close>

theorem error_handler_delay_differs_from_restart:
  "error_handler default_config = [SetTimeout RunCallback 60]
   \<and> restart default_config = [SetTimeout RunCallback 60000]"
  by (simp add: error_handler_def restart_def default_config_def log_def or_default_def
      DEFAULT_RECONNECT_INTERVAL_def)

text \<open>
  C3 (the code departs from it).  The claim: every mutation releases an acquired lock
  exactly once on every exit path.  The code: \<open>unseeMails\<close> on an empty identifier list
  has acquired the lock when it returns \<open>false\<close> and never releases it; and when the
  store call rejects, none of the three operations releases the lock.
\<close>

theorem lock_not_released:
  "unseeMails LockObject (StoreReturns True) ''INBOX'' (Uids []) = (Inr False, [GetMailboxLock ''INBOX''])
   \<and> releases ''INBOX'' (snd (unseeMails LockObject (StoreReturns True) ''INBOX'' (Uids []))) = 0
   \<and> releases ''INBOX'' (snd (deleteMails LockObject StoreRejects ''INBOX'' (Uids [10]))) = 0
   \<and> releases ''INBOX'' (snd (seeMails LockObject StoreRejects ''INBOX'' (Uids [10]))) = 0
   \<and> releases ''INBOX'' (snd (unseeMails LockObject StoreRejects ''INBOX'' (Uids [10]))) = 0"
  by (simp add: unseeMails_def deleteMails_def seeMails_def uidsAndMailsToUids_def releases_def)

text \<open>
  C4, as stated, fails: after a successful delete of identifiers 10 and 11 the events
  emitted once the lock is released are not \<open>removed(10)\<close>, \<open>removed(11)\<close>.
\<close>

theorem deleteMails_events_after_release_counterexample:
  "emitted_after_release ''INBOX''
     (snd (deleteMails LockObject (StoreReturns True) ''INBOX'' (Uids [10, 11])))
   \<noteq> [DeletedMailEvent 10, DeletedMailEvent 11]"
  by (simp add: deleteMails_def uidsAndMailsToUids_def emitted_after_release_def)

text \<open>
  C4, amended.  When the lock is acquired and the store reports success, \<open>deleteMails\<close>
  requests the lock, issues the delete, emits a \<open>deletedMail\<close> event for each
  normalised identifier in input order while it still holds the lock, releases the lock
  and returns \<open>true\<close>.
\<close>

theorem deleteMails_success_events_then_release:
  "deleteMails LockObject (StoreReturns True) p sel =
     (Inr True,
      [GetMailboxLock p, MessageDelete (join_uids (uidsAndMailsToUids sel))]
      @ map (\<lambda>u. Emit (DeletedMailEvent u)) (uidsAndMailsToUids sel)
      @ [LockRelease p])"
  by (simp add: deleteMails_def Let_def)

text \<open>
  C5, as stated, fails: \<open>unseeMails\<close> on an empty identifier list does request the
  mailbox lock.
\<close>

theorem unseeMails_empty_requests_lock_counterexample:
  "GetMailboxLock ''INBOX'' \<in> set (snd (unseeMails LockObject (StoreReturns True) ''INBOX'' (Uids [])))"
  by (simp add: unseeMails_def uidsAndMailsToUids_def)

text \<open>
  C5, amended.  When the normalised identifier list is empty, \<open>unseeMails\<close> first
  requests the mailbox lock and, unless that request rejects, returns \<open>false\<close> without
  any call that changes the store; \<open>deleteMails\<close> and \<open>seeMails\<close>, once they hold the
  lock, still issue their store call, with the empty identifier string.
\<close>

theorem empty_list_only_unseeMails_skips_store_call:
  assumes "uidsAndMailsToUids sel = []" and "lk \<noteq> LockRejects"
  shows "fst (unseeMails lk sr p sel) = Inr False
         \<and> (\<exists>rest. snd (unseeMails lk sr p sel) = GetMailboxLock p # rest)
         \<and> store_calls (snd (unseeMails lk sr p sel)) = []
         \<and> store_calls (snd (deleteMails LockObject sr p sel)) = [MessageDelete []]
         \<and> store_calls (snd (seeMails LockObject sr p sel)) = [MessageFlagsAdd []]"
  using assms
  by (cases lk; cases sr)
     (simp_all add: unseeMails_def deleteMails_def seeMails_def join_uids_def)

text \<open>The amended C5 at the selector \<open>{uids: []}\<close> with the lock granted.\<close>

theorem empty_list_only_unseeMails_skips_store_call_witness:
  "uidsAndMailsToUids (Uids []) = [] \<and> LockObject \<noteq> LockRejects
   \<and> fst (unseeMails LockObject (StoreReturns True) ''INBOX'' (Uids [])) = Inr False
   \<and> (\<exists>rest. snd (unseeMails LockObject (StoreReturns True) ''INBOX'' (Uids []))
                 = GetMailboxLock ''INBOX'' # rest)
   \<and> store_calls (snd (unseeMails LockObject (StoreReturns True) ''INBOX'' (Uids []))) = []
   \<and> store_calls (snd (deleteMails LockObject (StoreReturns True) ''INBOX'' (Uids []))) = [MessageDelete []]
   \<and> store_calls (snd (seeMails LockObject (StoreReturns True) ''INBOX'' (Uids []))) = [MessageFlagsAdd []]"
proof -
  have h1: "uidsAndMailsToUids (Uids []) = []" by (simp add: uidsAndMailsToUids_def)
  have h2: "LockObject \<noteq> LockRejects" by simp
  from empty_list_only_unseeMails_skips_store_call [OF h1 h2, of "StoreReturns True" "''INBOX''"] h1 h2
  show ?thesis by simp
qed

text \<open>
  C6 (the code departs from it).  The claim: after a poll that finds new messages the
  watermark is the maximum identifier fetched so far.  The code: \<open>watchMailbox\<close> takes
  the identifier of the last new message in fetch order, where \<open>getLastUid\<close> takes the
  maximum over the same fetch.  A poll at watermark 1 whose fetch yields identifiers 5
  then 3 leaves the watermark at 3, where the maximum is 5 and \<open>getLastUid\<close> returns 5;
  the next poll of the same messages delivers 5 a second time.
\<close>

theorem watermark_last_fetched_not_max:
  "watermark (fst (watchMailbox default_config header_parser
                     (FetchYields [msg_with_uid 5, msg_with_uid 3]) ''INBOX'' inbox_at_1)) ''INBOX''
     = Some 3
   \<and> Max (set (fetched_uids (FetchYields [msg_with_uid 5, msg_with_uid 3]))) = 5
   \<and> fst (getLastUid header_parser (FetchYields [msg_with_uid 5, msg_with_uid 3]) ''INBOX'' False
            inbox_at_1) = Inr 5
   \<and> arrived_uids (snd (polls default_config header_parser ''INBOX''
                          [FetchYields [msg_with_uid 5, msg_with_uid 3],
                           FetchYields [msg_with_uid 5, msg_with_uid 3]] inbox_at_1))
     = [5, 3, 5]"
  by (simp add: watchMailbox_def getLastMails_def search_def getNewMail_def new_Mail_def
      header_parser_def msg_with_uid_def inbox_at_1_def watermark_def fetched_uids_def Let_def
      getLastUid_def)

text \<open>
  C7 (the code departs from it).  The claim: with the first fetch yielding identifiers
  1, 2, 3 and the second 1, 2, 3, 4, 5, the first poll emits \<open>newMail\<close> for 2 then 3 and
  sets the watermark to 3, the second emits for 4 then 5 only and sets it to 5.  The
  code neither sorts the new messages nor takes their maximum: when the first fetch
  yields them in the order 3, 2, 1, the first poll emits 3 then 2 and sets the watermark
  to 2, and the second poll delivers 3 again before 4 and 5.
\<close>

theorem two_polls_descending_fetch_redelivers:
  "(case watchMailbox default_config header_parser
           (FetchYields (map msg_with_uid [3, 2, 1])) ''INBOX'' inbox_at_1 of
      (st1, acts1) \<Rightarrow>
        (case watchMailbox default_config header_parser
                (FetchYields (map msg_with_uid [1, 2, 3, 4, 5])) ''INBOX'' st1 of
           (st2, acts2) \<Rightarrow>
             arrived_uids acts1 = [3, 2] \<and> watermark st1 ''INBOX'' = Some 2
             \<and> arrived_uids acts2 = [3, 4, 5] \<and> watermark st2 ''INBOX'' = Some 5))"
  by (simp add: watchMailbox_def getLastMails_def search_def getNewMail_def new_Mail_def
      header_parser_def msg_with_uid_def inbox_at_1_def watermark_def Let_def)

text \<open>
  C8.  The content of the \<open>Mail\<close> that the constructor builds: for the text
  \<open>Hello there / --boundary123 / Sent from my phone\<close> it is \<open>Hello there\<close>; for an
  undefined or empty text, and whenever the \<open>try\<close> block of \<open>parseContent\<close> raises, it
  is the empty string.  The constructor is total; its content is the result of the
  \<open>try\<close> block, or the empty string when that raises.
\<close>

theorem parseContent_total:
  "(text_body pm1 = Some ''Hello there\<newline>--boundary123\<newline>Sent from my phone'' \<longrightarrow>
      mail_content (new_Mail mailboxPath msg pm1) = ''Hello there'')
   \<and> (text_body pm2 = None \<or> text_body pm2 = Some [] \<longrightarrow>
        mail_content (new_Mail mailboxPath msg pm2) = [])
   \<and> (parseContent_try (or_empty (text_body pm3)) = Inl e \<longrightarrow>
        mail_content (new_Mail mailboxPath msg pm3) = [])
   \<and> mail_content (new_Mail mailboxPath msg pm4) =
        (case parseContent_try (or_empty (text_body pm4)) of Inl e' \<Rightarrow> [] | Inr s \<Rightarrow> s)"
proof -
  have ex: "parseContent ''Hello there\<newline>--boundary123\<newline>Sent from my phone'' = ''Hello there''"
    by (simp add: parseContent_def parseContent_try_def js_split.simps slice_0_minus2_def
        trim_def is_ws_def)
  have "mail_content (new_Mail mailboxPath msg pm1) = ''Hello there''"
    if "text_body pm1 = Some ''Hello there\<newline>--boundary123\<newline>Sent from my phone''"
    using that ex by (simp add: new_Mail_def or_empty_def)
  moreover have "mail_content (new_Mail mailboxPath msg pm2) = []"
    if "text_body pm2 = None \<or> text_body pm2 = Some []"
    using that by (auto simp: new_Mail_def or_empty_def parseContent_empty)
  moreover have "mail_content (new_Mail mailboxPath msg pm3) = []"
    if "parseContent_try (or_empty (text_body pm3)) = Inl e"
    using that by (simp add: new_Mail_def parseContent_raise_empty)
  moreover have "mail_content (new_Mail mailboxPath msg pm4) =
        (case parseContent_try (or_empty (text_body pm4)) of Inl e' \<Rightarrow> [] | Inr s \<Rightarrow> s)"
    by (simp add: new_Mail_def parseContent_def)
  ultimately show ?thesis by blast
qed

text \<open>
  C8 at parsed mails with the text of the example, without text, and with a text
  without a line break (on which the \<open>try\<close> block raises).
\<close>

theorem parseContent_total_witness:
  "text_body \<lparr>subject = None, sender = None,
       text_body = Some ''Hello there\<newline>--boundary123\<newline>Sent from my phone''\<rparr>
     = Some ''Hello there\<newline>--boundary123\<newline>Sent from my phone''
   \<and> text_body \<lparr>subject = None, sender = None, text_body = None\<rparr> = None
   \<and> parseContent_try (or_empty (text_body \<lparr>subject = None, sender = None,
        text_body = Some ''no line break''\<rparr>)) = Inl TypeError
   \<and> mail_content (new_Mail ''INBOX'' (msg_with_uid 1) \<lparr>subject = None, sender = None,
        text_body = Some ''Hello there\<newline>--boundary123\<newline>Sent from my phone''\<rparr>)
       = ''Hello there''
   \<and> mail_content (new_Mail ''INBOX'' (msg_with_uid 1)
        \<lparr>subject = None, sender = None, text_body = None\<rparr>) = []
   \<and> mail_content (new_Mail ''INBOX'' (msg_with_uid 1)
        \<lparr>subject = None, sender = None, text_body = Some ''no line break''\<rparr>) = []"
proof -
  let ?pm1 = "\<lparr>subject = None, sender = None,
       text_body = Some ''Hello there\<newline>--boundary123\<newline>Sent from my phone''\<rparr>"
  let ?pm2 = "\<lparr>subject = None, sender = None, text_body = None\<rparr>"
  let ?pm3 = "\<lparr>subject = None, sender = None, text_body = Some ''no line break''\<rparr>"
  have h1: "text_body ?pm1 = Some ''Hello there\<newline>--boundary123\<newline>Sent from my phone''"
    by simp
  have h2: "text_body ?pm2 = None" by simp
  have h3: "parseContent_try (or_empty (text_body ?pm3)) = Inl TypeError"
    by (simp add: parseContent_try_def js_split.simps or_empty_def)
  from parseContent_total [of ?pm1 "''INBOX''" "msg_with_uid 1" ?pm2 ?pm3 TypeError ?pm3] h1 h2 h3
  show ?thesis by simp
qed

text \<open>
  C9, as stated, fails: when the lock cannot be acquired because the lock request
  rejects, \<open>seeMails\<close> does not return \<open>false\<close>.
\<close>

theorem seeMails_lock_rejects_counterexample:
  "fst (seeMails LockRejects (StoreReturns True) ''INBOX'' (Uids [10])) \<noteq> Inr False"
  by (simp add: seeMails_def)

text \<open>
  C9, amended.  When the lock request of \<open>seeMails\<close> resolves to no lock, the call
  returns \<open>false\<close>; when the lock request rejects, the call rejects with that error.
  In both cases the lock request is its only action: it makes no call that changes the
  store and emits no event.
\<close>

theorem seeMails_lock_unavailable:
  "seeMails LockFalsy sr p sel = (Inr False, [GetMailboxLock p])
   \<and> store_calls (snd (seeMails LockFalsy sr p sel)) = []
   \<and> emitted (snd (seeMails LockFalsy sr p sel)) = []
   \<and> seeMails LockRejects sr p sel = (Inl ClientError, [GetMailboxLock p])
   \<and> store_calls (snd (seeMails LockRejects sr p sel)) = []
   \<and> emitted (snd (seeMails LockRejects sr p sel)) = []"
  by (simp add: seeMails_def)

text \<open>
  C10.  A poll of a path that the registry does not hold does nothing: no action at all
  (no lock request, no fetch, no event, no log) and the same registry and buffer.
\<close>

theorem watchMailbox_unregistered_noop:
  "map_of (mailboxes st) p = None \<Longrightarrow> watchMailbox cfg sp reply p st = (st, [])"
  by (simp add: watchMailbox_def)

text \<open>C10 at the path \<open>Archive\<close> of a registry that holds only \<open>INBOX\<close>.\<close>

theorem watchMailbox_unregistered_noop_witness:
  "map_of (mailboxes inbox_at_1) ''Archive'' = None
   \<and> watchMailbox default_config header_parser (FetchYields [msg_with_uid 7]) ''Archive'' inbox_at_1
       = (inbox_at_1, [])"
proof -
  have h: "map_of (mailboxes inbox_at_1) ''Archive'' = None" by (simp add: inbox_at_1_def)
  from watchMailbox_unregistered_noop [OF h] h show ?thesis by simp
qed

end
